theory Spec2Isabelle
  imports Main "HOL-Library.AList"
begin

section \<open>JSON values and the Python operations the script applies to them\<close>

text \<open>
  Every value the script handles comes out of \<^verbatim>\<open>response.json()\<close> or \<^verbatim>\<open>json.load\<close>:
  \<^verbatim>\<open>None\<close>, booleans, numbers, strings, lists and dicts with string keys. A dict is an
  association list in insertion order; a lookup reads the first binding of a key (a parsed
  dict has one binding per key). Numbers are the integers; a number with a fractional part
  is outside this model. A string is a list of characters and is counted by character.
\<close>

datatype json =
    JNull
  | JBool bool
  | JInt int
  | JStr string
  | JList "json list"
  | JObj "(string \<times> json) list"

datatype error =
    KeyError
  | TypeError
  | IndexError
  | FileNotFoundError
  | OSError
  | JSONDecodeError
  | RequestException

text \<open>\<^verbatim>\<open>obj[k]\<close> for a string \<open>k\<close>: only a dict can be indexed by a string.\<close>

fun getitem :: "json \<Rightarrow> string \<Rightarrow> error + json" where
  "getitem (JObj kvs) k = (case map_of kvs k of None \<Rightarrow> Inl KeyError | Some v \<Rightarrow> Inr v)"
| "getitem JNull k = Inl TypeError"
| "getitem (JBool b) k = Inl TypeError"
| "getitem (JInt i) k = Inl TypeError"
| "getitem (JStr s) k = Inl TypeError"
| "getitem (JList xs) k = Inl TypeError"

text \<open>\<^verbatim>\<open>obj[k] = v\<close> for a string \<open>k\<close>: an existing key keeps its place, a new key goes last.\<close>

fun setitem :: "json \<Rightarrow> string \<Rightarrow> json \<Rightarrow> error + json" where
  "setitem (JObj kvs) k v = Inr (JObj (AList.update k v kvs))"
| "setitem JNull k v = Inl TypeError"
| "setitem (JBool b) k v = Inl TypeError"
| "setitem (JInt i) k v = Inl TypeError"
| "setitem (JStr s) k v = Inl TypeError"
| "setitem (JList xs) k v = Inl TypeError"

text \<open>\<^verbatim>\<open>for x in obj\<close>: a list gives its elements, a dict its keys, a string its characters
  as one-character strings; nothing else is iterable.\<close>

fun py_iter :: "json \<Rightarrow> error + json list" where
  "py_iter (JList xs) = Inr xs"
| "py_iter (JObj kvs) = Inr (map (\<lambda>p. JStr (fst p)) kvs)"
| "py_iter (JStr s) = Inr (map (\<lambda>c. JStr [c]) s)"
| "py_iter JNull = Inl TypeError"
| "py_iter (JBool b) = Inl TypeError"
| "py_iter (JInt i) = Inl TypeError"

fun is_substr :: "string \<Rightarrow> string \<Rightarrow> bool" where
  "is_substr p [] = (p = [])"
| "is_substr p (c # cs) = (take (length p) (c # cs) = p \<or> is_substr p cs)"

text \<open>\<^verbatim>\<open>k in obj\<close> for a string \<open>k\<close>: key of a dict, element of a list, substring of a string.\<close>

fun contains :: "json \<Rightarrow> string \<Rightarrow> error + bool" where
  "contains (JObj kvs) k = Inr (k \<in> fst ` set kvs)"
| "contains (JList xs) k = Inr (JStr k \<in> set xs)"
| "contains (JStr s) k = Inr (is_substr k s)"
| "contains JNull k = Inl TypeError"
| "contains (JBool b) k = Inl TypeError"
| "contains (JInt i) k = Inl TypeError"

text \<open>Truth value of an object in \<^verbatim>\<open>if obj:\<close>.\<close>

fun truthy :: "json \<Rightarrow> bool" where
  "truthy JNull = False"
| "truthy (JBool b) = b"
| "truthy (JInt i) = (i \<noteq> 0)"
| "truthy (JStr s) = (s \<noteq> [])"
| "truthy (JList xs) = (xs \<noteq> [])"
| "truthy (JObj kvs) = (kvs \<noteq> [])"

text \<open>
  The keys of \<^verbatim>\<open>self._behaviors\<close> and \<^verbatim>\<open>self._criteria\<close> are whatever a \<^verbatim>\<open>name\<close> field
  holds. A dict key must be hashable (a list or a dict is not), and \<^verbatim>\<open>True\<close> and \<^verbatim>\<open>1\<close>
  are one key, as are \<^verbatim>\<open>False\<close> and \<^verbatim>\<open>0\<close>.
\<close>

datatype key = KNone | KInt int | KStr string

fun to_key :: "json \<Rightarrow> error + key" where
  "to_key JNull = Inr KNone"
| "to_key (JBool b) = Inr (KInt (if b then 1 else 0))"
| "to_key (JInt i) = Inr (KInt i)"
| "to_key (JStr s) = Inr (KStr s)"
| "to_key (JList xs) = Inl TypeError"
| "to_key (JObj kvs) = Inl TypeError"

text \<open>Sequencing of two steps of which the first may raise: an exception skips the rest.\<close>

definition and_then :: "error + 'a \<Rightarrow> ('a \<Rightarrow> error + 'b) \<Rightarrow> error + 'b" where
  "and_then m f = (case m of Inl e \<Rightarrow> Inl e | Inr x \<Rightarrow> f x)"

lemma and_then_Inl [simp]: "and_then (Inl e) f = Inl e"
  by (simp add: and_then_def)

lemma and_then_Inr [simp]: "and_then (Inr x) f = f x"
  by (simp add: and_then_def)

lemma and_then_cong [fundef_cong]:
  "m = m' \<Longrightarrow> (\<And>x. m' = Inr x \<Longrightarrow> f x = g x) \<Longrightarrow> and_then m f = and_then m' g"
  by (cases m') (simp_all add: and_then_def)

lemma and_then_eq_Inr:
  "and_then m f = Inr y \<longleftrightarrow> (\<exists>x. m = Inr x \<and> f x = Inr y)"
  by (cases m) simp_all

text \<open>A \<^verbatim>\<open>for\<close> loop whose body updates a state and may raise: the first exception ends it.\<close>

fun for_each :: "('s \<Rightarrow> 'a \<Rightarrow> error + 's) \<Rightarrow> 's \<Rightarrow> 'a list \<Rightarrow> error + 's" where
  "for_each f s [] = Inr s"
| "for_each f s (x # xs) = and_then (f s x) (\<lambda>s'. for_each f s' xs)"

lemma for_each_cong [fundef_cong]:
  "xs = ys \<Longrightarrow> s = t \<Longrightarrow> (\<And>x u. x \<in> set ys \<Longrightarrow> f u x = g u x)
    \<Longrightarrow> for_each f s xs = for_each g t ys"
proof (induction ys arbitrary: xs s t)
  case Nil
  then show ?case by simp
next
  case (Cons y ys)
  have step: "f t y = g t y" using Cons.prems(3) by simp
  have rest: "\<And>u. for_each f u ys = for_each g u ys"
    using Cons.IH [OF refl refl] Cons.prems(3) by simp
  show ?case using Cons.prems(1,2) step rest by simp
qed

section \<open>RuleInfo: flattening a rule tree\<close>

text \<open>
  \<^verbatim>\<open>self._behaviors\<close> and \<^verbatim>\<open>self._criteria\<close>, the two dicts from a name to the list of
  entries seen under it. The model is by value: the entry appended to a bucket is the
  entry as it is at that moment (for a criterion, with its \<^verbatim>\<open>rulename\<close> set). In Python
  the bucket holds the very object of the tree, so the tree shows the same \<^verbatim>\<open>rulename\<close>.
\<close>

record RuleInfo =
  behaviors :: "key \<rightharpoonup> json list"
  criteria :: "key \<rightharpoonup> json list"

text \<open>\<^verbatim>\<open>d[k]\<close> on one of the two dicts.\<close>

definition bucket :: "(key \<rightharpoonup> json list) \<Rightarrow> key \<Rightarrow> error + json list" where
  "bucket d k = (case d k of None \<Rightarrow> Inl KeyError | Some l \<Rightarrow> Inr l)"

text \<open>The body of the loop over \<^verbatim>\<open>rule['behaviors']\<close> (lines 100 to 102).\<close>

definition add_behavior :: "RuleInfo \<Rightarrow> json \<Rightarrow> error + RuleInfo" where
  "add_behavior self behavior =
     and_then (getitem behavior ''name'') (\<lambda>n.
     and_then (to_key n) (\<lambda>k.
     let self1 = (if behaviors self k = None
                  then self\<lparr>behaviors := (behaviors self)(k \<mapsto> [])\<rparr> else self) in
     and_then (getitem behavior ''name'') (\<lambda>n2.
     and_then (to_key n2) (\<lambda>k2.
     and_then (bucket (behaviors self1) k2) (\<lambda>l.
     Inr (self1\<lparr>behaviors := (behaviors self1)(k2 \<mapsto> l @ [behavior])\<rparr>))))))"

text \<open>The body of the loop over \<^verbatim>\<open>rule['criteria']\<close> (lines 106 to 109).\<close>

definition add_criteria :: "json \<Rightarrow> RuleInfo \<Rightarrow> json \<Rightarrow> error + RuleInfo" where
  "add_criteria rule self crit =
     and_then (getitem crit ''name'') (\<lambda>n.
     and_then (to_key n) (\<lambda>k.
     let self1 = (if criteria self k = None
                  then self\<lparr>criteria := (criteria self)(k \<mapsto> [])\<rparr> else self) in
     and_then (getitem rule ''name'') (\<lambda>rn.
     and_then (setitem crit ''rulename'' rn) (\<lambda>crit'.
     and_then (getitem crit' ''name'') (\<lambda>n2.
     and_then (to_key n2) (\<lambda>k2.
     and_then (bucket (criteria self1) k2) (\<lambda>l.
     Inr (self1\<lparr>criteria := (criteria self1)(k2 \<mapsto> l @ [crit'])\<rparr>))))))))"

text \<open>Lines 104 to 109: the criteria are read only when the rule has the key.\<close>

definition run_criteria :: "RuleInfo \<Rightarrow> json \<Rightarrow> error + RuleInfo" where
  "run_criteria self rule =
     and_then (contains rule ''criteria'') (\<lambda>present.
     if present then
       and_then (getitem rule ''criteria'') (\<lambda>cs.
       and_then (py_iter cs) (\<lambda>cl. for_each (add_criteria rule) self cl))
     else Inr self)"

lemma size_map_of: "map_of kvs k = Some v \<Longrightarrow> size v < size (JObj kvs)"
  by (induction kvs) (auto split: if_splits)

lemma size_py_iter: "py_iter ch = Inr cl \<Longrightarrow> c \<in> set cl \<Longrightarrow> size c \<le> size ch"
proof (cases ch)
  case (JList xs)
  assume "py_iter ch = Inr cl" "c \<in> set cl"
  with JList have "c \<in> set xs" by simp
  then have "size c \<le> size_list size xs" by (induction xs) auto
  with JList show ?thesis by simp
qed auto

lemma size_child:
  assumes "getitem rule k = Inr ch" "py_iter ch = Inr cl" "c \<in> set cl"
  shows "size c < size rule"
proof (cases rule)
  case (JObj kvs)
  with assms(1) have "map_of kvs k = Some ch" by (simp split: option.splits)
  then have "size ch < size rule" using JObj size_map_of by simp
  moreover have "size c \<le> size ch" using assms(2,3) by (rule size_py_iter)
  ultimately show ?thesis by simp
qed (use assms(1) in auto)

text \<open>\<^verbatim>\<open>RuleInfo._runrules\<close> (lines 98 to 112).\<close>

function runrules :: "RuleInfo \<Rightarrow> json \<Rightarrow> error + RuleInfo" where
  "runrules self rule =
     and_then (getitem rule ''behaviors'') (\<lambda>bs.
     and_then (py_iter bs) (\<lambda>bl.
     and_then (for_each add_behavior self bl) (\<lambda>self1.
     and_then (run_criteria self1 rule) (\<lambda>self2.
     and_then (getitem rule ''children'') (\<lambda>ch.
     and_then (py_iter ch) (\<lambda>cl. for_each runrules self2 cl))))))"
  by pat_completeness auto
termination
  by (relation "measure (\<lambda>(self, rule). size rule)") (auto intro: size_child)

declare runrules.simps [simp del]

text \<open>\<^verbatim>\<open>RuleInfo.__init__\<close> (lines 91 to 96).\<close>

definition RuleInfo_init :: "json \<Rightarrow> error + RuleInfo" where
  "RuleInfo_init rules =
     (let self = \<lparr>behaviors = Map.empty, criteria = Map.empty\<rparr> in
      if truthy rules then and_then (getitem rules ''rules'') (runrules self)
      else Inr self)"

section \<open>The collaborators the script calls\<close>

text \<open>
  The script's own code is modelled against the libraries and services it calls, which are
  parameters here: the signed HTTP session with the JSON body of each response, the URL
  helpers of \<^verbatim>\<open>urllib.parse\<close>, \<^verbatim>\<open>html.unescape\<close>, Python's \<^verbatim>\<open>str()\<close> on a value that is
  not a string, \<^verbatim>\<open>json.dumps(_, indent=2)\<close>, opening and reading a file, \<^verbatim>\<open>json.load\<close>,
  and the expansion of \<^verbatim>\<open>~\<close> and environment variables in a path. Argument parsing,
  logging and the \<^verbatim>\<open>--json\<close> export are not modelled.
\<close>

record world =
  session_get :: "string \<Rightarrow> error + json"
  session_post :: "string \<Rightarrow> json \<Rightarrow> error + json"
  urlencode :: "(string \<times> json) list \<Rightarrow> string"
  urljoin :: "string \<Rightarrow> string \<Rightarrow> string"
  unescape :: "string \<Rightarrow> string"
  str_of :: "json \<Rightarrow> string"
  json_dumps :: "json \<Rightarrow> string"
  open_read :: "string \<Rightarrow> error + string"
  json_load :: "string \<Rightarrow> error + json"
  expand :: "string \<Rightarrow> string"

text \<open>\<^verbatim>\<open>str(v)\<close>, and so \<^verbatim>\<open>'{}'.format(v)\<close>: a string is itself.\<close>

definition py_str :: "world \<Rightarrow> json \<Rightarrow> string" where
  "py_str w v = (case v of JStr s \<Rightarrow> s | _ \<Rightarrow> str_of w v)"

section \<open>CacheControl\<close>

record CacheControl =
  cachefolder :: string

definition rstrip :: "char \<Rightarrow> string \<Rightarrow> string" where
  "rstrip c s = rev (dropWhile (\<lambda>x. x = c) (rev s))"

text \<open>\<^verbatim>\<open>CacheControl.__init__\<close> (lines 58 to 59).\<close>

definition CacheControl_init :: "world \<Rightarrow> string \<Rightarrow> CacheControl" where
  "CacheControl_init w folder = \<lparr>cachefolder = rstrip CHR ''/'' (expand w folder)\<rparr>"

text \<open>\<^verbatim>\<open>CacheControl.cachename\<close> (lines 61 to 67) with \<^verbatim>\<open>mkdirs=False\<close>, as \<^verbatim>\<open>load\<close> calls it.\<close>

definition cachename :: "CacheControl \<Rightarrow> string \<Rightarrow> string \<Rightarrow> string" where
  "cachename self name extension = cachefolder self @ ''/'' @ name @ extension"

text \<open>\<^verbatim>\<open>CacheControl.load\<close> (lines 75 to 85): the \<^verbatim>\<open>try\<close> covers the opening and the parsing.\<close>

definition load :: "world \<Rightarrow> CacheControl \<Rightarrow> string \<Rightarrow> string \<Rightarrow> error + json" where
  "load w self name extension =
     (let fullname = cachename self name extension in
      case and_then (open_read w fullname) (json_load w) of
        Inl e \<Rightarrow> (if e = FileNotFoundError then Inr JNull else Inl e)
      | Inr data \<Rightarrow> Inr data)"

section \<open>AkamaiBase and AkamaiDiag\<close>

record AkamaiBase =
  baseurl :: string
  account :: "string option"

text \<open>\<^verbatim>\<open>AkamaiBase._apipath\<close> (lines 149 to 159); \<^verbatim>\<open>parameters\<close> is \<^verbatim>\<open>None\<close> or a dict.\<close>

definition apipath :: "world \<Rightarrow> AkamaiBase \<Rightarrow> string \<Rightarrow> (string \<times> json) list option \<Rightarrow> string" where
  "apipath w self endpoint parameters =
     (let parameters1 =
        (case account self of
           None \<Rightarrow> parameters
         | Some a \<Rightarrow>
             if a = [] then parameters
             else Some (AList.update ''accountSwitchKey'' (JStr a)
                     (case parameters of None \<Rightarrow> [] | Some p \<Rightarrow> p)));
          ttpath =
        (case parameters1 of
           None \<Rightarrow> endpoint
         | Some p \<Rightarrow>
             if p \<noteq> [] \<and> 0 < length p \<and> CHR ''?'' \<notin> set endpoint
             then endpoint @ ''?'' @ urlencode w p else endpoint)
      in urljoin w (baseurl self) ttpath)"

text \<open>\<^verbatim>\<open>AkamaiDiag.urldebug\<close> (lines 165 to 171).\<close>

definition urldebug :: "world \<Rightarrow> AkamaiBase \<Rightarrow> string \<Rightarrow> error + json" where
  "urldebug w self urltotest =
     session_get w (apipath w self ''/diagnostic-tools/v2/url-debug''
       (Some [(''url'', JStr urltotest)]))"

text \<open>\<^verbatim>\<open>s.split(sep)\<close> for a one-character separator, and \<^verbatim>\<open>xs[i]\<close> on a list.\<close>

fun str_split :: "char \<Rightarrow> string \<Rightarrow> string list" where
  "str_split sep [] = [[]]"
| "str_split sep (c # cs) =
     (if c = sep then [] # str_split sep cs
      else (case str_split sep cs of [] \<Rightarrow> [[c]] | x # xs \<Rightarrow> (c # x) # xs))"

definition index_at :: "'a list \<Rightarrow> nat \<Rightarrow> error + 'a" where
  "index_at xs i = (if i < length xs then Inr (xs ! i) else Inl IndexError)"

text \<open>Lines 174 to 176 of \<^verbatim>\<open>AkamaiDiag.reference\<close>: the error code that goes into the path.\<close>

definition reference_code :: "world \<Rightarrow> string \<Rightarrow> error + string" where
  "reference_code w errorCode =
     (let errorCode1 = unescape w errorCode in
      if CHR ''#'' \<in> set errorCode1 then index_at (str_split CHR ''#'' errorCode1) 1
      else Inr errorCode1)"

text \<open>The URL that \<^verbatim>\<open>AkamaiDiag.reference\<close> requests (lines 177 to 179).\<close>

definition reference_url :: "world \<Rightarrow> AkamaiBase \<Rightarrow> string \<Rightarrow> error + string" where
  "reference_url w self errorCode =
     and_then (reference_code w errorCode) (\<lambda>code.
     Inr (apipath w self (''/diagnostic-tools/v2/errors/'' @ code @ ''/translated-error'') None))"

text \<open>\<^verbatim>\<open>AkamaiDiag.reference\<close> (lines 173 to 181).\<close>

definition reference :: "world \<Rightarrow> AkamaiBase \<Rightarrow> string \<Rightarrow> error + json" where
  "reference w self errorCode = and_then (reference_url w self errorCode) (session_get w)"

text \<open>The loop of \<^verbatim>\<open>propertybyhostname\<close> (lines 204 to 207); \<^verbatim>\<open>None\<close> is \<open>JNull\<close>.\<close>

fun first_active :: "json list \<Rightarrow> error + json" where
  "first_active [] = Inr JNull"
| "first_active (x # xs) =
     and_then (getitem x ''productionStatus'') (\<lambda>s.
     if s = JStr ''ACTIVE'' then Inr x else first_active xs)"

text \<open>\<^verbatim>\<open>AkamaiDiag.propertybyhostname\<close> (lines 197 to 207).\<close>

definition propertybyhostname :: "world \<Rightarrow> AkamaiBase \<Rightarrow> string \<Rightarrow> error + json" where
  "propertybyhostname w self hostname =
     (let reqbody = JObj [(''hostname'', JStr hostname)] in
      and_then (session_post w (apipath w self ''/papi/v1/search/find-by-value'' None) reqbody)
        (\<lambda>response.
      and_then (getitem response ''versions'') (\<lambda>versions.
      and_then (getitem versions ''items'') (\<lambda>items.
      and_then (py_iter items) first_active))))"

text \<open>\<^verbatim>\<open>AkamaiDiag.propertyrules\<close> (lines 209 to 220).\<close>

definition propertyrules :: "world \<Rightarrow> AkamaiBase \<Rightarrow> string \<Rightarrow> error + json" where
  "propertyrules w self hostname =
     and_then (propertybyhostname w self hostname) (\<lambda>property.
     if truthy property then
       and_then (getitem property ''propertyId'') (\<lambda>propertyId.
       and_then (getitem property ''propertyVersion'') (\<lambda>propertyVersion.
       let endpoint = ''/papi/v1/properties/'' @ py_str w propertyId @ ''/versions/''
                        @ py_str w propertyVersion @ ''/rules'' in
       and_then (getitem property ''contractId'') (\<lambda>contractId.
       and_then (getitem property ''groupId'') (\<lambda>groupId.
       session_get w (apipath w self endpoint
         (Some [(''contractId'', contractId), (''groupId'', groupId),
                (''validateMode'', JStr ''fast''), (''validateRules'', JStr ''false'')]))))))
     else Inr JNull)"

text \<open>\<^verbatim>\<open>AkamaiDiag.origins\<close> (lines 222 to 227): the bucket is a Python list, or \<^verbatim>\<open>None\<close>.\<close>

definition origins :: "world \<Rightarrow> AkamaiBase \<Rightarrow> string \<Rightarrow> error + json" where
  "origins w self hostname =
     and_then (propertyrules w self hostname) (\<lambda>rules.
     if truthy rules then
       and_then (RuleInfo_init rules) (\<lambda>ruleinfo.
       and_then (bucket (behaviors ruleinfo) (KStr ''origin'')) (\<lambda>l. Inr (JList l)))
     else Inr JNull)"

section \<open>The commands of the main program\<close>

text \<open>
  What a command leaves on the two output streams, one entry for each \<^verbatim>\<open>print\<close> call, with
  the exception that ended it, if any. What was printed before an exception stays printed.
\<close>

record console =
  stdout :: "string list"
  stderr :: "string list"

text \<open>A loop whose body ends by printing some lines or raises before printing.\<close>

fun print_each :: "('a \<Rightarrow> error + string list) \<Rightarrow> 'a list \<Rightarrow> string list \<times> error option" where
  "print_each f [] = ([], None)"
| "print_each f (x # xs) =
     (case f x of
        Inl e \<Rightarrow> ([], Some e)
      | Inr ls \<Rightarrow> (ls @ fst (print_each f xs), snd (print_each f xs)))"

text \<open>\<^verbatim>\<open>format(v, '<22')\<close>: left-justified in 22 columns; \<^verbatim>\<open>None\<close>, a list and a dict
  reject the format, a boolean is formatted as the integer it is.\<close>

definition ljust :: "nat \<Rightarrow> string \<Rightarrow> string" where
  "ljust n s = s @ replicate (n - length s) CHR '' ''"

fun format_left22 :: "world \<Rightarrow> json \<Rightarrow> error + string" where
  "format_left22 w (JStr s) = Inr (ljust 22 s)"
| "format_left22 w (JInt i) = Inr (ljust 22 (str_of w (JInt i)))"
| "format_left22 w (JBool b) = Inr (ljust 22 (str_of w (JInt (if b then 1 else 0))))"
| "format_left22 w JNull = Inl TypeError"
| "format_left22 w (JList xs) = Inl TypeError"
| "format_left22 w (JObj kvs) = Inl TypeError"

text \<open>The body of the loop of the \<^verbatim>\<open>urldebug\<close> command (lines 266 to 267). A keyword taken
  from \<^verbatim>\<open>**x\<close> fails as \<^verbatim>\<open>x[k]\<close> does: on a value that is no dict, and on a missing key.\<close>

definition urldebug_line :: "world \<Rightarrow> json \<Rightarrow> error + string list" where
  "urldebug_line w x =
     and_then (getitem x ''value'') (\<lambda>v.
     if truthy v then
       and_then (getitem x ''name'') (\<lambda>name.
       and_then (format_left22 w name) (\<lambda>left.
       and_then (getitem x ''value'') (\<lambda>value.
       Inr [left @ '': '' @ py_str w value])))
     else Inr [])"

text \<open>The \<^verbatim>\<open>try\<close> block of the \<^verbatim>\<open>urldebug\<close> command (lines 265 to 267).\<close>

definition urldebug_try :: "world \<Rightarrow> json \<Rightarrow> string list \<times> error option" where
  "urldebug_try w result =
     (case and_then (getitem result ''urlDebug'') (\<lambda>u.
           and_then (getitem u ''httpResponse'') py_iter) of
        Inl e \<Rightarrow> ([], Some e)
      | Inr xs \<Rightarrow> print_each (urldebug_line w) xs)"

text \<open>The \<^verbatim>\<open>try\<close> with its bare \<^verbatim>\<open>except\<close> (lines 264 to 269).\<close>

definition urldebug_print :: "world \<Rightarrow> json \<Rightarrow> string list" where
  "urldebug_print w result =
     (case snd (urldebug_try w result) of
        None \<Rightarrow> fst (urldebug_try w result)
      | Some e \<Rightarrow> fst (urldebug_try w result) @ [json_dumps w result])"

text \<open>The \<^verbatim>\<open>urldebug\<close> command (lines 261 to 269).\<close>

definition urldebug_command :: "world \<Rightarrow> AkamaiBase \<Rightarrow> string \<Rightarrow> console \<times> error option" where
  "urldebug_command w akadiag url =
     (case urldebug w akadiag url of
        Inl e \<Rightarrow> (\<lparr>stdout = [], stderr = []\<rparr>, Some e)
      | Inr result \<Rightarrow> (\<lparr>stdout = urldebug_print w result, stderr = []\<rparr>, None))"

text \<open>The body of the loop of the \<^verbatim>\<open>origins\<close> command (lines 284 to 288); \<open>opts\<close> is the
  source's \<^verbatim>\<open>o\<close>.\<close>

definition origin_line :: "world \<Rightarrow> json \<Rightarrow> error + string list" where
  "origin_line w x =
     and_then (getitem x ''options'') (\<lambda>opts.
     and_then (getitem opts ''originType'') (\<lambda>t.
     if t = JStr ''CUSTOMER'' then
       and_then (getitem opts ''hostname'') (\<lambda>h. Inr [py_str w h])
     else
       and_then (getitem opts ''originType'') (\<lambda>t2.
       if t2 = JStr ''NET_STORAGE'' then
         and_then (getitem opts ''netStorage'') (\<lambda>ns.
         and_then (getitem ns ''downloadDomainName'') (\<lambda>d. Inr [py_str w d]))
       else Inr [])))"

text \<open>The \<^verbatim>\<open>origins\<close> command (lines 278 to 288).\<close>

definition origins_command :: "world \<Rightarrow> AkamaiBase \<Rightarrow> string \<Rightarrow> console \<times> error option" where
  "origins_command w akadiag hostname =
     (case origins w akadiag hostname of
        Inl e \<Rightarrow> (\<lparr>stdout = [], stderr = []\<rparr>, Some e)
      | Inr result \<Rightarrow>
          if result = JNull then
            (\<lparr>stdout = [],
              stderr = [''Problem, hostname incorrect or issue with accessing the API'']\<rparr>, None)
          else
            (case py_iter result of
               Inl e \<Rightarrow> (\<lparr>stdout = [], stderr = []\<rparr>, Some e)
             | Inr xs \<Rightarrow>
                 (\<lparr>stdout = fst (print_each (origin_line w) xs), stderr = []\<rparr>,
                  snd (print_each (origin_line w) xs))))"

section \<open>What a rule tree holds, in document order\<close>

text \<open>
  The entries a node lists under a field: what the loop \<^verbatim>\<open>for x in rule[k]\<close> runs over, and
  nothing when the field is absent or cannot be iterated.
\<close>

definition elements :: "json \<Rightarrow> string \<Rightarrow> json list" where
  "elements rule k =
     (case and_then (getitem rule k) py_iter of Inl e \<Rightarrow> [] | Inr xs \<Rightarrow> xs)"

lemma size_elements: "x \<in> set (elements rule k) \<Longrightarrow> size x < size rule"
proof -
  assume x: "x \<in> set (elements rule k)"
  then obtain xs where xs: "and_then (getitem rule k) py_iter = Inr xs" and mem: "x \<in> set xs"
    by (cases "and_then (getitem rule k) py_iter") (auto simp: elements_def)
  from xs obtain ch where "getitem rule k = Inr ch" "py_iter ch = Inr xs"
    by (auto simp: and_then_eq_Inr)
  then show ?thesis using mem by (rule size_child)
qed

text \<open>The nodes of a tree, depth first and in pre-order: a node, then each child's nodes in turn.\<close>

function nodes :: "json \<Rightarrow> json list" where
  "nodes rule = rule # concat (map nodes (elements rule ''children''))"
  by pat_completeness auto
termination
  by (relation "measure size") (auto intro: size_elements)

declare nodes.simps [simp del]

text \<open>An entry has the name \<open>k\<close> when its \<^verbatim>\<open>name\<close> field hashes to the key \<open>k\<close>.\<close>

definition named :: "key \<Rightarrow> json \<Rightarrow> bool" where
  "named k x = (and_then (getitem x ''name'') to_key = Inr k)"

text \<open>A bucket after more entries were appended: it exists once it has an entry.\<close>

definition extend :: "json list option \<Rightarrow> json list \<Rightarrow> json list option" where
  "extend b xs = (if xs = [] then b else Some ((case b of None \<Rightarrow> [] | Some l \<Rightarrow> l) @ xs))"

lemma extend_Nil [simp]: "extend b [] = b"
  by (simp add: extend_def)

lemma extend_append: "extend (extend b xs) ys = extend b (xs @ ys)"
  by (simp add: extend_def)

text \<open>Every behavior of every node, and every criterion with the node that lists it.\<close>

definition all_behaviors :: "json \<Rightarrow> json list" where
  "all_behaviors root = concat (map (\<lambda>n. elements n ''behaviors'') (nodes root))"

definition owned_criteria :: "json \<Rightarrow> (json \<times> json) list" where
  "owned_criteria root = concat (map (\<lambda>n. map (Pair n) (elements n ''criteria'')) (nodes root))"

text \<open>The criterion of a pair with \<^verbatim>\<open>rulename\<close> set to the \<^verbatim>\<open>name\<close> of the node of the pair.\<close>

definition annotated :: "json \<times> json \<Rightarrow> json" where
  "annotated p =
     (case and_then (getitem (fst p) ''name'') (setitem (snd p) ''rulename'') of
        Inl e \<Rightarrow> snd p | Inr c \<Rightarrow> c)"

text \<open>
  A well-formed tree: every node is a dict whose \<^verbatim>\<open>behaviors\<close> and \<^verbatim>\<open>children\<close> can be
  iterated, whose \<^verbatim>\<open>criteria\<close>, if the key is there, can be iterated too, whose behaviors
  and criteria have a hashable \<^verbatim>\<open>name\<close>, which has a \<^verbatim>\<open>name\<close> itself when it lists a
  criterion, and whose children are well-formed.
\<close>

definition succeeds :: "error + 'a \<Rightarrow> bool" where
  "succeeds m = (case m of Inl e \<Rightarrow> False | Inr x \<Rightarrow> True)"

definition has_name :: "json \<Rightarrow> bool" where
  "has_name x = succeeds (and_then (getitem x ''name'') to_key)"

definition criteria_ok :: "json \<Rightarrow> bool" where
  "criteria_ok rule =
     (case getitem rule ''criteria'' of
        Inl e \<Rightarrow> e = KeyError
      | Inr cs \<Rightarrow> succeeds (py_iter cs) \<and> list_all has_name (elements rule ''criteria'') \<and>
          (elements rule ''criteria'' = [] \<or> succeeds (getitem rule ''name'')))"

function well_formed :: "json \<Rightarrow> bool" where
  "well_formed rule =
     (succeeds (and_then (getitem rule ''behaviors'') py_iter) \<and>
      list_all has_name (elements rule ''behaviors'') \<and>
      criteria_ok rule \<and>
      succeeds (and_then (getitem rule ''children'') py_iter) \<and>
      list_all well_formed (elements rule ''children''))"
  by pat_completeness auto
termination
  by (relation "measure size") (auto intro: size_elements)

declare well_formed.simps [simp del]

section \<open>An example property\<close>

text \<open>
  A rule tree with two \<^verbatim>\<open>origin\<close> behaviors, the first of type \<^verbatim>\<open>CUSTOMER\<close> on the root rule
  and the second of type \<^verbatim>\<open>NET_STORAGE\<close> on a child rule.
\<close>

definition origin_customer :: json where
  "origin_customer = JObj [(''name'', JStr ''origin''),
     (''options'', JObj [(''originType'', JStr ''CUSTOMER''), (''hostname'', JStr ''a.example.com'')])]"

definition origin_netstorage :: json where
  "origin_netstorage = JObj [(''name'', JStr ''origin''),
     (''options'', JObj [(''originType'', JStr ''NET_STORAGE''),
        (''netStorage'', JObj [(''downloadDomainName'', JStr ''b.example.com.download'')])])]"

definition example_child :: json where
  "example_child = JObj [(''name'', JStr ''static''),
     (''criteria'', JList [JObj [(''name'', JStr ''path'')]]),
     (''behaviors'', JList [origin_netstorage]),
     (''children'', JList [])]"

definition example_root :: json where
  "example_root = JObj [(''name'', JStr ''default''),
     (''behaviors'', JList [origin_customer, JObj [(''name'', JStr ''caching'')]]),
     (''children'', JList [example_child])]"

definition example_rules :: json where
  "example_rules = JObj [(''propertyName'', JStr ''www''), (''rules'', example_root)]"

lemmas example_defs =
  example_rules_def example_root_def example_child_def origin_customer_def origin_netstorage_def

text \<open>
  The search response for the example property: two versions, the second with the given
  production status.
\<close>

definition example_search :: "string \<Rightarrow> json" where
  "example_search status = JObj [(''versions'', JObj [(''items'', JList
     [JObj [(''propertyId'', JStr ''prp_1''), (''propertyVersion'', JInt 3),
            (''contractId'', JStr ''ctr_1''), (''groupId'', JStr ''grp_1''),
            (''productionStatus'', JStr ''INACTIVE'')],
      JObj [(''propertyId'', JStr ''prp_1''), (''propertyVersion'', JInt 2),
            (''contractId'', JStr ''ctr_1''), (''groupId'', JStr ''grp_1''),
            (''productionStatus'', JStr status)]])])]"

text \<open>
  A world that answers every POST with \<open>posted\<close> and every GET with \<open>got\<close>, has no cache
  file, and whose \<^verbatim>\<open>html.unescape\<close> changes nothing (as Python's does on a string
  without \<^verbatim>\<open>&\<close>).
\<close>

definition example_world :: "json \<Rightarrow> json \<Rightarrow> world" where
  "example_world posted got =
     \<lparr>session_get = (\<lambda>url. Inr got),
      session_post = (\<lambda>url body. Inr posted),
      urlencode = (\<lambda>p. ''''),
      urljoin = (\<lambda>base path. base @ path),
      unescape = (\<lambda>s. s),
      str_of = (\<lambda>v. ''''),
      json_dumps = (\<lambda>v. ''{}''),
      open_read = (\<lambda>path. Inl FileNotFoundError),
      json_load = (\<lambda>text. Inr JNull),
      expand = (\<lambda>path. path)\<rparr>"

definition example_akadiag :: AkamaiBase where
  "example_akadiag = \<lparr>baseurl = ''https://host.example'', account = None\<rparr>"

text \<open>A rule tree whose only behavior is not an origin.\<close>

definition rules_without_origin :: json where
  "rules_without_origin = JObj [(''rules'', JObj [(''name'', JStr ''default''),
     (''behaviors'', JList [JObj [(''name'', JStr ''caching'')]]), (''children'', JList [])])]"

text \<open>A URL-debug result whose second entry has \<^verbatim>\<open>None\<close> for a name, which \<^verbatim>\<open>{name:<22}\<close> rejects.\<close>

definition malformed_urldebug :: json where
  "malformed_urldebug = JObj [(''urlDebug'', JObj [(''httpResponse'', JList
     [JObj [(''name'', JStr ''Response Code''), (''value'', JStr ''200'')],
      JObj [(''name'', JNull), (''value'', JStr ''x'')],
      JObj [(''name'', JStr ''CP Code''), (''value'', JStr ''12345'')]])])]"

text \<open>The substring after the \<^verbatim>\<open>#\<close>, in the words of the specification: what follows the
  first \<^verbatim>\<open>#\<close> of a string.\<close>

definition after_hash :: "string \<Rightarrow> string" where
  "after_hash s = tl (dropWhile (\<lambda>c. c \<noteq> CHR ''#'') s)"

section \<open>The flattener appends to the buckets in document order\<close>

lemma for_each_Inr_Cons:
  "for_each f s (x # xs) = Inr s' \<longleftrightarrow> (\<exists>u. f s x = Inr u \<and> for_each f u xs = Inr s')"
  by (simp add: and_then_eq_Inr)

lemma for_each_extend:
  assumes "\<And>x u u'. x \<in> set xs \<Longrightarrow> f u x = Inr u' \<Longrightarrow> g u' = extend (g u) (h x)"
    and "for_each f s xs = Inr s'"
  shows "g s' = extend (g s) (concat (map h xs))"
  using assms
proof (induction xs arbitrary: s)
  case Nil
  then show ?case by simp
next
  case (Cons x xs)
  from Cons.prems(2) obtain u where u: "f s x = Inr u" and rest: "for_each f u xs = Inr s'"
    by (auto simp: and_then_eq_Inr)
  have "g u = extend (g s) (h x)" using Cons.prems(1) u by simp
  moreover have "g s' = extend (g u) (concat (map h xs))"
    using Cons.IH [OF _ rest] Cons.prems(1) by simp
  ultimately show ?case by (simp add: extend_append)
qed

lemma for_each_each:
  assumes "for_each f s xs = Inr s'" "x \<in> set xs"
  shows "\<exists>u u'. f u x = Inr u'"
  using assms
proof (induction xs arbitrary: s)
  case Nil
  then show ?case by simp
next
  case (Cons y ys)
  from Cons.prems(1) obtain u where u: "f s y = Inr u" and rest: "for_each f u ys = Inr s'"
    by (auto simp: and_then_eq_Inr)
  show ?case
  proof (cases "x = y")
    case True
    with u show ?thesis by blast
  next
    case False
    with Cons.prems(2) have "x \<in> set ys" by simp
    then show ?thesis using Cons.IH [OF rest] by simp
  qed
qed

lemma concat_map_nodes:
  "concat (map h (concat (map nodes cl))) = concat (map (\<lambda>c. concat (map h (nodes c))) cl)"
  by (induction cl) simp_all

lemma runrules_Inr:
  "runrules self rule = Inr self' \<longleftrightarrow>
     (\<exists>self1 self2. for_each add_behavior self (elements rule ''behaviors'') = Inr self1 \<and>
        (\<exists>bs bl. getitem rule ''behaviors'' = Inr bs \<and> py_iter bs = Inr bl) \<and>
        run_criteria self1 rule = Inr self2 \<and>
        (\<exists>ch cl. getitem rule ''children'' = Inr ch \<and> py_iter ch = Inr cl) \<and>
        for_each runrules self2 (elements rule ''children'') = Inr self')"
  by (subst runrules.simps) (auto simp: and_then_eq_Inr elements_def)

lemma runrules_extend:
  assumes own: "\<And>n u u1 u2. for_each add_behavior u (elements n ''behaviors'') = Inr u1 \<Longrightarrow>
                  run_criteria u1 n = Inr u2 \<Longrightarrow> g u2 = extend (g u) (h n)"
    and run: "runrules self rule = Inr self'"
  shows "g self' = extend (g self) (concat (map h (nodes rule)))"
  using run
proof (induction rule arbitrary: self self' rule: measure_induct_rule [of size])
  case (less rule)
  from less.prems obtain self1 self2
    where b: "for_each add_behavior self (elements rule ''behaviors'') = Inr self1"
      and c: "run_criteria self1 rule = Inr self2"
      and ch: "for_each runrules self2 (elements rule ''children'') = Inr self'"
    by (auto simp: runrules_Inr)
  have 1: "g self2 = extend (g self) (h rule)" using own b c .
  have 2: "g self' = extend (g self2)
             (concat (map (\<lambda>c. concat (map h (nodes c))) (elements rule ''children'')))"
  proof (rule for_each_extend [OF _ ch])
    fix x u u'
    assume "x \<in> set (elements rule ''children'')" "runrules u x = Inr u'"
    then show "g u' = extend (g u) (concat (map h (nodes x)))"
      using less.IH size_elements by blast
  qed
  have "nodes rule = rule # concat (map nodes (elements rule ''children''))"
    by (subst nodes.simps) simp
  then show ?case using 1 2 by (simp add: extend_append concat_map_nodes)
qed

lemma add_behavior_Inr:
  assumes "add_behavior self b = Inr self'"
  shows "behaviors self' k = extend (behaviors self k) (filter (named k) [b])"
    and "criteria self' = criteria self"
  using assms
  by (auto simp: add_behavior_def and_then_eq_Inr named_def extend_def bucket_def Let_def
      split: if_splits option.splits)

lemma setitem_keeps_name:
  "setitem c ''rulename'' v = Inr c' \<Longrightarrow> getitem c' ''name'' = getitem c ''name''"
  by (cases c) (auto simp: update_conv')

lemma add_criteria_Inr:
  assumes "add_criteria n self c = Inr self'"
  shows "criteria self' k =
           extend (criteria self k) (map annotated (filter (\<lambda>p. named k (snd p)) [(n, c)]))"
    and "behaviors self' = behaviors self"
    and "\<exists>c'. and_then (getitem n ''name'') (setitem c ''rulename'') = Inr c'"
proof -
  from assms obtain nm k0 rn c' l where
    nm: "getitem c ''name'' = Inr nm" and k0: "to_key nm = Inr k0"
    and rn: "getitem n ''name'' = Inr rn" and c': "setitem c ''rulename'' rn = Inr c'"
    and l: "bucket (criteria (if criteria self k0 = None
              then self\<lparr>criteria := (criteria self)(k0 \<mapsto> [])\<rparr> else self)) k0 = Inr l"
    and self': "self' = (if criteria self k0 = None
              then self\<lparr>criteria := (criteria self)(k0 \<mapsto> [])\<rparr> else self)
                 \<lparr>criteria := (criteria (if criteria self k0 = None
              then self\<lparr>criteria := (criteria self)(k0 \<mapsto> [])\<rparr> else self))(k0 \<mapsto> l @ [c'])\<rparr>"
    using setitem_keeps_name
    by (auto simp: add_criteria_def and_then_eq_Inr Let_def)
  have ann: "annotated (n, c) = c'" using rn c' by (simp add: annotated_def)
  have nk: "named k c \<longleftrightarrow> k = k0" using nm k0 by (auto simp: named_def)
  show "criteria self' k =
           extend (criteria self k) (map annotated (filter (\<lambda>p. named k (snd p)) [(n, c)]))"
    using self' l ann nk by (auto simp: extend_def bucket_def split: if_splits option.splits)
  show "behaviors self' = behaviors self" using self' by (simp split: if_splits)
  show "\<exists>c'. and_then (getitem n ''name'') (setitem c ''rulename'') = Inr c'"
    using rn c' by simp
qed

lemma concat_map_filter_single: "concat (map (\<lambda>x. filter P [x]) xs) = filter P xs"
  by (induction xs) simp_all

lemma for_each_keeps:
  assumes "\<And>x u u'. f u x = Inr u' \<Longrightarrow> g u' = g u" and "for_each f s xs = Inr s'"
  shows "g s' = g s"
  using assms(2)
proof (induction xs arbitrary: s)
  case Nil
  then show ?case by simp
next
  case (Cons x xs)
  from Cons.prems obtain u where u: "f s x = Inr u" and rest: "for_each f u xs = Inr s'"
    by (auto simp: and_then_eq_Inr)
  show ?case using Cons.IH [OF rest] assms(1) [OF u] by simp
qed

lemma key_in_dict: "k \<in> fst ` set kvs \<longleftrightarrow> (\<exists>v. map_of kvs k = Some v)"
  using map_of_eq_None_iff [of kvs k] by auto

lemma run_criteria_Inr:
  "run_criteria self rule = Inr self' \<Longrightarrow>
     for_each (add_criteria rule) self (elements rule ''criteria'') = Inr self'"
  by (cases rule)
     (auto simp: run_criteria_def elements_def and_then_eq_Inr key_in_dict
        split: if_splits option.splits)

lemma own_behaviors:
  assumes b: "for_each add_behavior u (elements n ''behaviors'') = Inr u1"
    and c: "run_criteria u1 n = Inr u2"
  shows "behaviors u2 k = extend (behaviors u k) (filter (named k) (elements n ''behaviors''))"
proof -
  have "behaviors u1 k =
          extend (behaviors u k) (concat (map (\<lambda>b. filter (named k) [b]) (elements n ''behaviors'')))"
    by (rule for_each_extend [OF _ b]) (rule add_behavior_Inr(1))
  moreover have "behaviors u2 = behaviors u1"
    by (rule for_each_keeps [OF _ run_criteria_Inr [OF c]]) (rule add_criteria_Inr(2))
  ultimately show ?thesis by (simp only: concat_map_filter_single)
qed

lemma own_criteria:
  assumes b: "for_each add_behavior u (elements n ''behaviors'') = Inr u1"
    and c: "run_criteria u1 n = Inr u2"
  shows "criteria u2 k = extend (criteria u k)
           (map annotated (filter (\<lambda>p. named k (snd p)) (map (Pair n) (elements n ''criteria''))))"
proof -
  have "criteria u1 = criteria u"
    by (rule for_each_keeps [OF _ b]) (rule add_behavior_Inr(2))
  moreover have "criteria u2 k = extend (criteria u1 k)
      (concat (map (\<lambda>c. map annotated (filter (\<lambda>p. named k (snd p)) [(n, c)]))
         (elements n ''criteria'')))"
    by (rule for_each_extend [OF _ run_criteria_Inr [OF c]]) (rule add_criteria_Inr(1))
  moreover have "concat (map (\<lambda>c. map annotated (filter (\<lambda>p. named k (snd p)) [(n, c)])) xs)
      = map annotated (filter (\<lambda>p. named k (snd p)) (map (Pair n) xs))" for xs
    by (induction xs) simp_all
  ultimately show ?thesis by simp
qed

lemma runrules_behaviors:
  assumes "runrules self rule = Inr self'"
  shows "behaviors self' k = extend (behaviors self k) (filter (named k) (all_behaviors rule))"
proof -
  have "behaviors self' k = extend (behaviors self k)
          (concat (map (\<lambda>n. filter (named k) (elements n ''behaviors'')) (nodes rule)))"
    by (rule runrules_extend [OF _ assms]) (rule own_behaviors)
  then show ?thesis by (simp add: all_behaviors_def filter_concat comp_def)
qed

lemma runrules_criteria:
  assumes "runrules self rule = Inr self'"
  shows "criteria self' k = extend (criteria self k)
           (map annotated (filter (\<lambda>p. named k (snd p)) (owned_criteria rule)))"
proof -
  have "criteria self' k = extend (criteria self k)
          (concat (map (\<lambda>n. map annotated (filter (\<lambda>p. named k (snd p))
             (map (Pair n) (elements n ''criteria'')))) (nodes rule)))"
    by (rule runrules_extend [OF _ assms]) (rule own_criteria)
  then show ?thesis by (simp add: owned_criteria_def filter_concat map_concat comp_def)
qed

lemma nodes_unfold: "nodes rule = rule # concat (map nodes (elements rule ''children''))"
  by (subst nodes.simps) simp

lemma runrules_nodes:
  assumes "runrules self rule = Inr self'" "n \<in> set (nodes rule)"
  shows "\<exists>u u'. runrules u n = Inr u'"
  using assms
proof (induction rule arbitrary: self self' rule: measure_induct_rule [of size])
  case (less rule)
  show ?case
  proof (cases "n = rule")
    case True
    with less.prems(1) show ?thesis by blast
  next
    case False
    with less.prems(2) obtain c where c: "c \<in> set (elements rule ''children'')"
      and n: "n \<in> set (nodes c)"
      by (subst (asm) nodes_unfold) auto
    from less.prems(1) obtain s2 where "for_each runrules s2 (elements rule ''children'') = Inr self'"
      by (auto simp: runrules_Inr)
    from for_each_each [OF this c] obtain u u' where "runrules u c = Inr u'" by blast
    then show ?thesis using less.IH [OF size_elements [OF c] _ n] by blast
  qed
qed

lemmas flatten_defs =
  RuleInfo_init_def runrules.simps add_behavior_def add_criteria_def run_criteria_def bucket_def

lemmas document_defs = all_behaviors_def owned_criteria_def nodes.simps elements_def named_def

lemma add_behavior_named: "add_behavior u b = Inr u' \<Longrightarrow> \<exists>k. named k b"
  by (auto simp: add_behavior_def named_def and_then_eq_Inr)

lemma runrules_fields:
  assumes "runrules self rule = Inr self'" "n \<in> set (nodes rule)"
  shows "\<exists>bs ch. getitem n ''behaviors'' = Inr bs \<and> getitem n ''children'' = Inr ch"
proof -
  from runrules_nodes [OF assms] obtain u u' where "runrules u n = Inr u'" by blast
  then show ?thesis by (auto simp: runrules_Inr)
qed

lemma runrules_behavior_named:
  assumes "runrules self rule = Inr self'" "b \<in> set (all_behaviors rule)"
  shows "\<exists>k. named k b"
proof -
  from assms(2) obtain n where n: "n \<in> set (nodes rule)" and b: "b \<in> set (elements n ''behaviors'')"
    by (auto simp: all_behaviors_def)
  from runrules_nodes [OF assms(1) n] obtain u u1
    where "for_each add_behavior u (elements n ''behaviors'') = Inr u1"
    by (auto simp: runrules_Inr)
  from for_each_each [OF this b] show ?thesis using add_behavior_named by blast
qed

lemma runrules_criterion_annotated:
  assumes "runrules self rule = Inr self'" "p \<in> set (owned_criteria rule)"
  shows "\<exists>c. and_then (getitem (fst p) ''name'') (setitem (snd p) ''rulename'') = Inr c"
proof -
  from assms(2) obtain n c where p: "p = (n, c)" and n: "n \<in> set (nodes rule)"
    and c: "c \<in> set (elements n ''criteria'')"
    by (auto simp: owned_criteria_def)
  from runrules_nodes [OF assms(1) n] obtain u1 u2 where "run_criteria u1 n = Inr u2"
    by (auto simp: runrules_Inr)
  from for_each_each [OF run_criteria_Inr [OF this] c] show ?thesis
    using add_criteria_Inr(3) p by fastforce
qed

lemma RuleInfo_init_Inr:
  assumes "truthy rules" "getitem rules ''rules'' = Inr root"
  shows "RuleInfo_init rules = runrules \<lparr>behaviors = Map.empty, criteria = Map.empty\<rparr> root"
  using assms by (simp add: RuleInfo_init_def)

text \<open>The flattener returns on every well-formed tree, from every state.\<close>

lemma succeeds_Inr: "succeeds m \<longleftrightarrow> (\<exists>x. m = Inr x)"
  by (cases m) (simp_all add: succeeds_def)

lemma for_each_succeeds:
  assumes "\<And>x u. x \<in> set xs \<Longrightarrow> \<exists>u'. f u x = Inr u'"
  shows "\<exists>s'. for_each f s xs = Inr s'"
  using assms
proof (induction xs arbitrary: s)
  case Nil
  then show ?case by simp
next
  case (Cons x xs)
  from Cons.prems obtain u where u: "f s x = Inr u" by fastforce
  from Cons.IH [of u] Cons.prems obtain s' where "for_each f u xs = Inr s'" by fastforce
  with u show ?case by simp
qed

lemma add_behavior_succeeds:
  assumes "has_name b"
  shows "\<exists>u'. add_behavior u b = Inr u'"
proof -
  from assms obtain nm k where "getitem b ''name'' = Inr nm" "to_key nm = Inr k"
    by (auto simp: has_name_def succeeds_Inr and_then_eq_Inr)
  then show ?thesis
    by (cases "behaviors u k") (simp_all add: add_behavior_def bucket_def Let_def)
qed

lemma add_criteria_succeeds:
  assumes "has_name c" "succeeds (getitem n ''name'')"
  shows "\<exists>u'. add_criteria n u c = Inr u'"
proof -
  from assms(1) obtain nm k where nm: "getitem c ''name'' = Inr nm" and k: "to_key nm = Inr k"
    by (auto simp: has_name_def succeeds_Inr and_then_eq_Inr)
  from assms(2) obtain rn where rn: "getitem n ''name'' = Inr rn" by (auto simp: succeeds_Inr)
  from nm obtain kvs where c: "c = JObj kvs" by (cases c) auto
  then have s: "setitem c ''rulename'' rn = Inr (JObj (AList.update ''rulename'' rn kvs))" by simp
  have "getitem (JObj (AList.update ''rulename'' rn kvs)) ''name'' = Inr nm"
    using setitem_keeps_name [OF s] nm by simp
  then show ?thesis using nm k rn s
    by (cases "criteria u k") (simp_all add: add_criteria_def bucket_def Let_def)
qed

lemma run_criteria_succeeds:
  assumes "criteria_ok rule" "succeeds (getitem rule ''behaviors'')"
  shows "\<exists>u'. run_criteria u rule = Inr u'"
proof -
  from assms(2) obtain kvs where rule: "rule = JObj kvs" by (cases rule) (auto simp: succeeds_def)
  show ?thesis
  proof (cases "getitem rule ''criteria''")
    case (Inl e)
    with assms(1) have "getitem rule ''criteria'' = Inl KeyError" by (simp add: criteria_ok_def)
    then have "''criteria'' \<notin> fst ` set kvs"
      using rule by (auto simp: key_in_dict split: option.splits)
    then show ?thesis using rule by (simp add: run_criteria_def)
  next
    case (Inr cs)
    with assms(1) obtain cl where cl: "py_iter cs = Inr cl"
      and names: "list_all has_name (elements rule ''criteria'')"
      and nm: "elements rule ''criteria'' = [] \<or> succeeds (getitem rule ''name'')"
      by (auto simp: criteria_ok_def succeeds_Inr)
    have el: "elements rule ''criteria'' = cl" using Inr cl by (simp add: elements_def)
    have "\<exists>u'. for_each (add_criteria rule) u cl = Inr u'"
    proof (rule for_each_succeeds)
      fix x v
      assume "x \<in> set cl"
      then have "has_name x" "succeeds (getitem rule ''name'')"
        using names nm el by (auto simp: list_all_iff)
      then show "\<exists>u'. add_criteria rule v x = Inr u'" by (rule add_criteria_succeeds)
    qed
    moreover have "''criteria'' \<in> fst ` set kvs"
      using Inr rule by (auto simp: key_in_dict split: option.splits)
    ultimately show ?thesis using Inr cl rule by (simp add: run_criteria_def)
  qed
qed

lemma well_formed_flattens: "well_formed rule \<Longrightarrow> \<exists>self'. runrules self rule = Inr self'"
proof (induction rule arbitrary: self rule: measure_induct_rule [of size])
  case (less rule)
  from less.prems have wf: "succeeds (and_then (getitem rule ''behaviors'') py_iter)"
    "list_all has_name (elements rule ''behaviors'')" "criteria_ok rule"
    "succeeds (and_then (getitem rule ''children'') py_iter)"
    "list_all well_formed (elements rule ''children'')"
    by (subst (asm) well_formed.simps, simp)+
  from wf(1) obtain bs bl where bs: "getitem rule ''behaviors'' = Inr bs" "py_iter bs = Inr bl"
    by (auto simp: succeeds_Inr and_then_eq_Inr)
  from wf(4) obtain ch cl where ch: "getitem rule ''children'' = Inr ch" "py_iter ch = Inr cl"
    by (auto simp: succeeds_Inr and_then_eq_Inr)
  have "\<exists>u'. for_each add_behavior self (elements rule ''behaviors'') = Inr u'"
    using wf(2) by (intro for_each_succeeds add_behavior_succeeds) (simp add: list_all_iff)
  then obtain self1 where 1: "for_each add_behavior self (elements rule ''behaviors'') = Inr self1"
    by blast
  from run_criteria_succeeds [OF wf(3)] bs(1) obtain self2
    where 2: "run_criteria self1 rule = Inr self2"
    by (fastforce simp: succeeds_Inr)
  have "\<exists>u'. for_each runrules self2 (elements rule ''children'') = Inr u'"
  proof (rule for_each_succeeds)
    fix x u
    assume x: "x \<in> set (elements rule ''children'')"
    then have "well_formed x" using wf(5) by (simp add: list_all_iff)
    then show "\<exists>u'. runrules u x = Inr u'" using less.IH [OF size_elements [OF x]] by blast
  qed
  then obtain self3 where 3: "for_each runrules self2 (elements rule ''children'') = Inr self3"
    by blast
  show ?case using 1 2 3 bs ch by (auto simp: runrules_Inr)
qed

lemma example_root_well_formed: "well_formed example_root"
  by (simp add: well_formed.simps example_defs elements_def succeeds_def has_name_def criteria_ok_def)

section \<open>The claims about RuleInfo\<close>

text \<open>
  C2. An absent or falsy input gives two empty mappings, and so does a rule tree with no
  rules, read as: the root rule lists no behaviors, no criteria (an empty list, or no
  \<^verbatim>\<open>criteria\<close> key) and no children.
\<close>

theorem empty_tree_empty_index:
  "(\<not> truthy rules \<longrightarrow>
      RuleInfo_init rules = Inr \<lparr>behaviors = Map.empty, criteria = Map.empty\<rparr>) \<and>
   (truthy rules \<and> getitem rules ''rules'' = Inr root \<and>
    getitem root ''behaviors'' = Inr (JList []) \<and>
    (getitem root ''criteria'' = Inr (JList []) \<or> getitem root ''criteria'' = Inl KeyError) \<and>
    getitem root ''children'' = Inr (JList []) \<longrightarrow>
      RuleInfo_init rules = Inr \<lparr>behaviors = Map.empty, criteria = Map.empty\<rparr>)"
proof (intro conjI impI)
  assume "\<not> truthy rules"
  then show "RuleInfo_init rules = Inr \<lparr>behaviors = Map.empty, criteria = Map.empty\<rparr>"
    by (simp add: RuleInfo_init_def)
next
  assume a: "truthy rules \<and> getitem rules ''rules'' = Inr root \<and>
    getitem root ''behaviors'' = Inr (JList []) \<and>
    (getitem root ''criteria'' = Inr (JList []) \<or> getitem root ''criteria'' = Inl KeyError) \<and>
    getitem root ''children'' = Inr (JList [])"
  then obtain kvs where root: "root = JObj kvs" by (cases root) auto
  have "run_criteria s root = Inr s" for s
    using a root by (auto simp: run_criteria_def key_in_dict split: option.splits)
  then have "runrules s root = Inr s" for s
    using a by (simp add: runrules.simps)
  then show "RuleInfo_init rules = Inr \<lparr>behaviors = Map.empty, criteria = Map.empty\<rparr>"
    using a by (simp add: RuleInfo_init_Inr)
qed

theorem empty_tree_empty_index_witness:
  "RuleInfo_init JNull = Inr \<lparr>behaviors = Map.empty, criteria = Map.empty\<rparr> \<and>
   RuleInfo_init (JObj []) = Inr \<lparr>behaviors = Map.empty, criteria = Map.empty\<rparr> \<and>
   RuleInfo_init (JObj [(''rules'', JObj [(''name'', JStr ''default''), (''behaviors'', JList []),
      (''criteria'', JList []), (''children'', JList [])])])
     = Inr \<lparr>behaviors = Map.empty, criteria = Map.empty\<rparr>"
  using empty_tree_empty_index [of JNull JNull]
    empty_tree_empty_index [of "JObj []" JNull]
    empty_tree_empty_index [of "JObj [(''rules'', JObj [(''name'', JStr ''default''),
      (''behaviors'', JList []), (''criteria'', JList []), (''children'', JList [])])]"
      "JObj [(''name'', JStr ''default''), (''behaviors'', JList []),
      (''criteria'', JList []), (''children'', JList [])]"]
  by simp

text \<open>
  C3. When the flattener returns, the bucket of every name \<open>k\<close> in \<^verbatim>\<open>behaviors\<close> holds
  the behaviors named \<open>k\<close> of all nodes, each as often as the tree lists it, in the order of
  the depth-first pre-order walk \<^const>\<open>nodes\<close> (a node's own list before its children's,
  the children from first to last); a name without a behavior has no bucket; and every
  behavior of the tree has a name, so it is in the bucket of that name. The flattener
  returns on every well-formed tree (\<open>well_formed_flattens\<close>).
\<close>

theorem behaviors_in_document_order:
  assumes "truthy rules" "getitem rules ''rules'' = Inr root" "RuleInfo_init rules = Inr ruleinfo"
  shows "behaviors ruleinfo k =
           (if filter (named k) (all_behaviors root) = [] then None
            else Some (filter (named k) (all_behaviors root))) \<and>
         (\<forall>b \<in> set (all_behaviors root). \<exists>k. named k b)"
proof -
  have run: "runrules \<lparr>behaviors = Map.empty, criteria = Map.empty\<rparr> root = Inr ruleinfo"
    using assms by (simp add: RuleInfo_init_Inr)
  show ?thesis
    using runrules_behaviors [OF run, of k] runrules_behavior_named [OF run]
    by (simp add: extend_def)
qed

theorem behaviors_in_document_order_witness:
  "truthy example_rules \<and> getitem example_rules ''rules'' = Inr example_root \<and>
   (\<exists>ruleinfo. RuleInfo_init example_rules = Inr ruleinfo \<and>
      all_behaviors example_root = [origin_customer, JObj [(''name'', JStr ''caching'')], origin_netstorage] \<and>
      behaviors ruleinfo (KStr ''origin'') = Some [origin_customer, origin_netstorage] \<and>
      behaviors ruleinfo (KStr ''caching'') = Some [JObj [(''name'', JStr ''caching'')]] \<and>
      behaviors ruleinfo (KStr ''path'') = None)"
proof -
  obtain ruleinfo where r: "RuleInfo_init example_rules = Inr ruleinfo"
    by (simp add: example_defs flatten_defs)
  have t: "truthy example_rules" and g: "getitem example_rules ''rules'' = Inr example_root"
    by (simp_all add: example_rules_def)
  have d: "all_behaviors example_root
             = [origin_customer, JObj [(''name'', JStr ''caching'')], origin_netstorage]"
    by (simp add: example_defs document_defs)
  have n: "named (KStr ''origin'') origin_customer" "named (KStr ''origin'') origin_netstorage"
    "\<not> named (KStr ''origin'') (JObj [(''name'', JStr ''caching'')])"
    "\<not> named (KStr ''caching'') origin_customer" "\<not> named (KStr ''caching'') origin_netstorage"
    "named (KStr ''caching'') (JObj [(''name'', JStr ''caching'')])"
    "\<not> named (KStr ''path'') origin_customer" "\<not> named (KStr ''path'') origin_netstorage"
    "\<not> named (KStr ''path'') (JObj [(''name'', JStr ''caching'')])"
    by (simp_all add: named_def example_defs)
  show ?thesis
    using behaviors_in_document_order [OF t g r, of "KStr ''origin''"]
      behaviors_in_document_order [OF t g r, of "KStr ''caching''"]
      behaviors_in_document_order [OF t g r, of "KStr ''path''"] t g r d n
    by simp
qed

lemma add_criteria_named: "add_criteria n u c = Inr u' \<Longrightarrow> \<exists>k. named k c"
  by (auto simp: add_criteria_def named_def and_then_eq_Inr)

lemma runrules_criterion_named:
  assumes "runrules self rule = Inr self'" "p \<in> set (owned_criteria rule)"
  shows "\<exists>k. named k (snd p)"
proof -
  from assms(2) obtain n c where p: "p = (n, c)" and n: "n \<in> set (nodes rule)"
    and c: "c \<in> set (elements n ''criteria'')"
    by (auto simp: owned_criteria_def)
  from runrules_nodes [OF assms(1) n] obtain u1 u2 where "run_criteria u1 n = Inr u2"
    by (auto simp: runrules_Inr)
  from for_each_each [OF run_criteria_Inr [OF this] c] show ?thesis
    using add_criteria_named p by fastforce
qed

lemma setitem_getitem:
  assumes "setitem c k v = Inr c'"
  shows "getitem c' f = (if f = k then Inr v else getitem c f)"
  using assms by (cases c) (auto simp: update_conv')

text \<open>
  C4. When the flattener returns, the bucket of every name \<open>k\<close> in \<^verbatim>\<open>criteria\<close> holds the
  criteria named \<open>k\<close> of all nodes, each as often as the tree lists it and in document
  order, and each entry is the criterion with \<^verbatim>\<open>rulename\<close> set to the \<^verbatim>\<open>name\<close> of the node
  that lists it: every node that lists a criterion has a \<^verbatim>\<open>name\<close>, every criterion has a
  name of its own, and the assignment to \<^verbatim>\<open>rulename\<close> leaves that name as it was.
\<close>

theorem criteria_annotated_with_owner:
  assumes "truthy rules" "getitem rules ''rules'' = Inr root" "RuleInfo_init rules = Inr ruleinfo"
  shows "criteria ruleinfo k =
           (if filter (\<lambda>p. named k (snd p)) (owned_criteria root) = [] then None
            else Some (map annotated (filter (\<lambda>p. named k (snd p)) (owned_criteria root)))) \<and>
         (\<forall>p \<in> set (owned_criteria root).
            (\<exists>k. named k (snd p)) \<and>
            (\<exists>rn. getitem (fst p) ''name'' = Inr rn \<and>
                  setitem (snd p) ''rulename'' rn = Inr (annotated p) \<and>
                  getitem (annotated p) ''rulename'' = Inr rn))"
proof -
  have run: "runrules \<lparr>behaviors = Map.empty, criteria = Map.empty\<rparr> root = Inr ruleinfo"
    using assms by (simp add: RuleInfo_init_Inr)
  have "\<exists>rn. getitem (fst p) ''name'' = Inr rn \<and>
          setitem (snd p) ''rulename'' rn = Inr (annotated p) \<and>
          getitem (annotated p) ''rulename'' = Inr rn"
    if "p \<in> set (owned_criteria root)" for p
  proof -
    from runrules_criterion_annotated [OF run that] obtain c rn
      where rn: "getitem (fst p) ''name'' = Inr rn" and c: "setitem (snd p) ''rulename'' rn = Inr c"
      by (auto simp: and_then_eq_Inr)
    then have "annotated p = c" by (simp add: annotated_def)
    then show ?thesis using rn c setitem_getitem [OF c, of "''rulename''"] by simp
  qed
  then show ?thesis
    using runrules_criteria [OF run, of k] runrules_criterion_named [OF run]
    by (simp add: extend_def)
qed

theorem criteria_annotated_with_owner_witness:
  "truthy example_rules \<and> getitem example_rules ''rules'' = Inr example_root \<and>
   (\<exists>ruleinfo. RuleInfo_init example_rules = Inr ruleinfo \<and>
      owned_criteria example_root = [(example_child, JObj [(''name'', JStr ''path'')])] \<and>
      criteria ruleinfo (KStr ''path'') =
        Some [JObj [(''name'', JStr ''path''), (''rulename'', JStr ''static'')]] \<and>
      criteria ruleinfo (KStr ''origin'') = None)"
proof -
  obtain ruleinfo where r: "RuleInfo_init example_rules = Inr ruleinfo"
    by (simp add: example_defs flatten_defs)
  have t: "truthy example_rules" and g: "getitem example_rules ''rules'' = Inr example_root"
    by (simp_all add: example_rules_def)
  have d: "owned_criteria example_root = [(example_child, JObj [(''name'', JStr ''path'')])]"
    by (simp add: example_defs document_defs)
  have n: "named (KStr ''path'') (JObj [(''name'', JStr ''path'')])"
    "\<not> named (KStr ''origin'') (JObj [(''name'', JStr ''path'')])"
    by (simp_all add: named_def)
  have a: "annotated (example_child, JObj [(''name'', JStr ''path'')])
             = JObj [(''name'', JStr ''path''), (''rulename'', JStr ''static'')]"
    by (simp add: annotated_def example_child_def)
  show ?thesis
    using criteria_annotated_with_owner [OF t g r, of "KStr ''path''"]
      criteria_annotated_with_owner [OF t g r, of "KStr ''origin''"] t g r d n a
    by simp
qed

text \<open>
  C1 as stated fails for \<^verbatim>\<open>criteria\<close>: line 104 asks \<^verbatim>\<open>'criteria' in rule\<close> first, so a
  node without the key is flattened without an error.
\<close>

theorem missing_criteria_counterexample:
  "getitem (JObj [(''name'', JStr ''default''), (''behaviors'', JList []), (''children'', JList [])])
     ''criteria'' = Inl KeyError \<and>
   runrules \<lparr>behaviors = Map.empty, criteria = Map.empty\<rparr>
     (JObj [(''name'', JStr ''default''), (''behaviors'', JList []), (''children'', JList [])])
     = Inr \<lparr>behaviors = Map.empty, criteria = Map.empty\<rparr>"
  by (simp add: flatten_defs)

text \<open>
  C1, amended. A node of the tree without a \<^verbatim>\<open>behaviors\<close> or a \<^verbatim>\<open>children\<close> key makes the
  flattener raise, from whatever state and however deep the node is, and the constructor
  raises with it; the node itself raises \<^verbatim>\<open>KeyError\<close> at once when \<^verbatim>\<open>behaviors\<close> is the
  missing key. A node without a \<^verbatim>\<open>criteria\<close> key is no error: its criteria step changes
  nothing.
\<close>

theorem missing_field_raises:
  "(n \<in> set (nodes root) \<and>
      (getitem n ''behaviors'' = Inl KeyError \<or> getitem n ''children'' = Inl KeyError) \<longrightarrow>
        (\<exists>e. runrules self root = Inl e) \<and>
        (truthy rules \<and> getitem rules ''rules'' = Inr root \<longrightarrow> (\<exists>e. RuleInfo_init rules = Inl e))) \<and>
   (getitem n ''behaviors'' = Inl KeyError \<longrightarrow> runrules self n = Inl KeyError) \<and>
   (getitem n ''criteria'' = Inl KeyError \<longrightarrow> run_criteria self n = Inr self)"
proof (intro conjI impI)
  assume a: "n \<in> set (nodes root) \<and>
      (getitem n ''behaviors'' = Inl KeyError \<or> getitem n ''children'' = Inl KeyError)"
  have fails: "\<exists>e. runrules s root = Inl e" for s
  proof (cases "runrules s root")
    case (Inl e)
    then show ?thesis by blast
  next
    case (Inr s')
    from runrules_fields [OF Inr] a show ?thesis by fastforce
  qed
  from fails show "\<exists>e. runrules self root = Inl e" .
  assume "truthy rules \<and> getitem rules ''rules'' = Inr root"
  then show "\<exists>e. RuleInfo_init rules = Inl e"
    using fails by (simp add: RuleInfo_init_Inr)
next
  assume "getitem n ''behaviors'' = Inl KeyError"
  then show "runrules self n = Inl KeyError" by (simp add: runrules.simps)
next
  assume "getitem n ''criteria'' = Inl KeyError"
  then show "run_criteria self n = Inr self"
    by (cases n) (auto simp: run_criteria_def key_in_dict split: option.splits)
qed

theorem missing_field_raises_witness:
  "JObj [(''name'', JStr ''leaf''), (''behaviors'', JList [])]
     \<in> set (nodes (JObj [(''name'', JStr ''default''), (''behaviors'', JList []),
          (''children'', JList [JObj [(''name'', JStr ''leaf''), (''behaviors'', JList [])]])])) \<and>
   getitem (JObj [(''name'', JStr ''leaf''), (''behaviors'', JList [])]) ''children'' = Inl KeyError \<and>
   (\<exists>e. runrules \<lparr>behaviors = Map.empty, criteria = Map.empty\<rparr>
          (JObj [(''name'', JStr ''default''), (''behaviors'', JList []),
            (''children'', JList [JObj [(''name'', JStr ''leaf''), (''behaviors'', JList [])]])])
        = Inl e) \<and>
   (\<exists>e. RuleInfo_init (JObj [(''rules'', JObj [(''name'', JStr ''default''), (''behaviors'', JList []),
            (''children'', JList [JObj [(''name'', JStr ''leaf''), (''behaviors'', JList [])]])])])
        = Inl e) \<and>
   getitem (JObj [(''name'', JStr ''leaf''), (''children'', JList [])]) ''behaviors'' = Inl KeyError \<and>
   runrules \<lparr>behaviors = Map.empty, criteria = Map.empty\<rparr>
      (JObj [(''name'', JStr ''leaf''), (''children'', JList [])]) = Inl KeyError \<and>
   getitem (JObj [(''name'', JStr ''leaf''), (''behaviors'', JList [])]) ''criteria'' = Inl KeyError \<and>
   run_criteria \<lparr>behaviors = Map.empty, criteria = Map.empty\<rparr>
      (JObj [(''name'', JStr ''leaf''), (''behaviors'', JList [])])
     = Inr \<lparr>behaviors = Map.empty, criteria = Map.empty\<rparr>"
  using missing_field_raises [of "JObj [(''name'', JStr ''leaf''), (''behaviors'', JList [])]"
      "JObj [(''name'', JStr ''default''), (''behaviors'', JList []),
          (''children'', JList [JObj [(''name'', JStr ''leaf''), (''behaviors'', JList [])]])]"
      "\<lparr>behaviors = Map.empty, criteria = Map.empty\<rparr>"
      "JObj [(''rules'', JObj [(''name'', JStr ''default''), (''behaviors'', JList []),
            (''children'', JList [JObj [(''name'', JStr ''leaf''), (''behaviors'', JList [])]])])]"]
    missing_field_raises [of "JObj [(''name'', JStr ''leaf''), (''children'', JList [])]"
      "JObj [(''name'', JStr ''leaf''), (''children'', JList [])]"
      "\<lparr>behaviors = Map.empty, criteria = Map.empty\<rparr>" JNull]
  by (simp add: nodes.simps elements_def)

section \<open>The claims about AkamaiDiag and the commands\<close>

text \<open>
  C10. When the rules of a property are retrieved and flattened, and no behavior of any node
  is named \<^verbatim>\<open>origin\<close>, \<^verbatim>\<open>AkamaiDiag.origins\<close> raises \<^verbatim>\<open>KeyError\<close>: it returns neither \<^verbatim>\<open>None\<close>
  nor an empty list.
\<close>

theorem origins_without_origin_behavior:
  assumes "propertyrules w self hostname = Inr rules" "truthy rules"
    and "getitem rules ''rules'' = Inr root" "RuleInfo_init rules = Inr ruleinfo"
    and "\<forall>b \<in> set (all_behaviors root). \<not> named (KStr ''origin'') b"
  shows "origins w self hostname = Inl KeyError"
proof -
  have run: "runrules \<lparr>behaviors = Map.empty, criteria = Map.empty\<rparr> root = Inr ruleinfo"
    using assms(2-4) by (simp add: RuleInfo_init_Inr)
  have "filter (named (KStr ''origin'')) (all_behaviors root) = []"
    using assms(5) by (simp add: filter_empty_conv)
  then have "behaviors ruleinfo (KStr ''origin'') = None"
    using runrules_behaviors [OF run, of "KStr ''origin''"] by simp
  then show ?thesis using assms(1,2,4) by (simp add: origins_def bucket_def)
qed

theorem origins_without_origin_behavior_witness:
  "propertyrules (example_world (example_search ''ACTIVE'') rules_without_origin) example_akadiag
      ''www.example.com'' = Inr rules_without_origin \<and>
   truthy rules_without_origin \<and>
   (\<exists>root ruleinfo. getitem rules_without_origin ''rules'' = Inr root \<and>
      RuleInfo_init rules_without_origin = Inr ruleinfo \<and>
      (\<forall>b \<in> set (all_behaviors root). \<not> named (KStr ''origin'') b)) \<and>
   origins (example_world (example_search ''ACTIVE'') rules_without_origin) example_akadiag
      ''www.example.com'' = Inl KeyError"
proof -
  let ?w = "example_world (example_search ''ACTIVE'') rules_without_origin"
  let ?root = "JObj [(''name'', JStr ''default''),
     (''behaviors'', JList [JObj [(''name'', JStr ''caching'')]]), (''children'', JList [])]"
  have p: "propertyrules ?w example_akadiag ''www.example.com'' = Inr rules_without_origin"
    by (simp add: propertyrules_def propertybyhostname_def example_world_def example_search_def)
  have t: "truthy rules_without_origin"
    and g: "getitem rules_without_origin ''rules'' = Inr ?root"
    by (simp_all add: rules_without_origin_def)
  obtain ruleinfo where r: "RuleInfo_init rules_without_origin = Inr ruleinfo"
    by (simp add: rules_without_origin_def flatten_defs)
  have a: "\<forall>b \<in> set (all_behaviors ?root). \<not> named (KStr ''origin'') b"
    by (simp add: document_defs)
  show ?thesis
    using origins_without_origin_behavior [OF p t g r a] p t g r a by blast
qed

lemma str_split_unfold:
  "str_split sep s = takeWhile (\<lambda>c. c \<noteq> sep) s #
     (if sep \<in> set s then str_split sep (tl (dropWhile (\<lambda>c. c \<noteq> sep) s)) else [])"
  by (induction s) (auto split: list.splits)

lemma str_split_second:
  assumes "sep \<in> set s"
  shows "index_at (str_split sep s) 1
           = Inr (takeWhile (\<lambda>c. c \<noteq> sep) (tl (dropWhile (\<lambda>c. c \<noteq> sep) s)))"
proof -
  let ?rest = "tl (dropWhile (\<lambda>c. c \<noteq> sep) s)"
  have "str_split sep s = takeWhile (\<lambda>c. c \<noteq> sep) s # str_split sep ?rest"
    using assms by (subst str_split_unfold) simp
  moreover have "str_split sep ?rest = takeWhile (\<lambda>c. c \<noteq> sep) ?rest #
      (if sep \<in> set ?rest then str_split sep (tl (dropWhile (\<lambda>c. c \<noteq> sep) ?rest)) else [])"
    by (rule str_split_unfold)
  ultimately show ?thesis by (simp add: index_at_def)
qed

lemma single_sep_rest:
  assumes "count_list s sep = 1"
  shows "sep \<notin> set (tl (dropWhile (\<lambda>c. c \<noteq> sep) s))"
  using assms
proof (induction s)
  case Nil
  then show ?case by simp
next
  case (Cons c s)
  then show ?case by (auto simp: count_list_0_iff split: if_splits)
qed

text \<open>
  C5 as stated fails on a reference with a second \<^verbatim>\<open>#\<close>: \<^verbatim>\<open>split('#')[1]\<close> stops there.
\<close>

theorem reference_after_hash_counterexample:
  "CHR ''#'' \<in> set ''a#b#c'' \<and>
   reference_code (example_world JNull JNull) ''a#b#c'' = Inr ''b'' \<and>
   after_hash ''a#b#c'' = ''b#c'' \<and>
   reference_code (example_world JNull JNull) ''a#b#c'' \<noteq> Inr (after_hash ''a#b#c'')"
  by (simp add: reference_code_def example_world_def index_at_def after_hash_def)

text \<open>
  C5, amended. When the unescaped reference contains a \<^verbatim>\<open>#\<close>, the error code is the
  substring after the first \<^verbatim>\<open>#\<close> up to the next \<^verbatim>\<open>#\<close> or the end of the string, and this is
  what goes into the path of the translated-error endpoint; with a single \<^verbatim>\<open>#\<close> it is the
  whole substring after it.
\<close>

theorem reference_uses_segment_after_hash:
  assumes "CHR ''#'' \<in> set (unescape w errorCode)"
  shows "reference_code w errorCode
           = Inr (takeWhile (\<lambda>c. c \<noteq> CHR ''#'') (after_hash (unescape w errorCode))) \<and>
         reference_url w self errorCode
           = Inr (apipath w self (''/diagnostic-tools/v2/errors/''
                @ takeWhile (\<lambda>c. c \<noteq> CHR ''#'') (after_hash (unescape w errorCode))
                @ ''/translated-error'') None) \<and>
         (count_list (unescape w errorCode) CHR ''#'' = 1 \<longrightarrow>
            reference_code w errorCode = Inr (after_hash (unescape w errorCode)))"
proof -
  have code: "reference_code w errorCode
           = Inr (takeWhile (\<lambda>c. c \<noteq> CHR ''#'') (after_hash (unescape w errorCode)))"
    using assms str_split_second [OF assms]
    by (simp add: reference_code_def after_hash_def)
  have "takeWhile (\<lambda>c. c \<noteq> CHR ''#'') (after_hash (unescape w errorCode))
          = after_hash (unescape w errorCode)"
    if "count_list (unescape w errorCode) CHR ''#'' = 1"
    using single_sep_rest [OF that] by (auto simp: after_hash_def takeWhile_eq_all_conv)
  then show ?thesis using code by (simp add: reference_url_def)
qed

theorem reference_uses_segment_after_hash_witness:
  "CHR ''#'' \<in> set (unescape (example_world JNull JNull) ''Error#E_CONNECT_TIMEOUT'') \<and>
   count_list (unescape (example_world JNull JNull) ''Error#E_CONNECT_TIMEOUT'') CHR ''#'' = 1 \<and>
   reference_code (example_world JNull JNull) ''Error#E_CONNECT_TIMEOUT'' = Inr ''E_CONNECT_TIMEOUT'' \<and>
   reference_url (example_world JNull JNull) example_akadiag ''Error#E_CONNECT_TIMEOUT''
     = Inr ''https://host.example/diagnostic-tools/v2/errors/E_CONNECT_TIMEOUT/translated-error''"
  using reference_uses_segment_after_hash
    [of "example_world JNull JNull" "''Error#E_CONNECT_TIMEOUT''" example_akadiag]
  by (simp add: example_world_def example_akadiag_def after_hash_def apipath_def)

text \<open>
  C9. When the file of a cache name cannot be opened because it does not exist,
  \<^verbatim>\<open>CacheControl.load\<close> returns \<^verbatim>\<open>None\<close> and raises nothing.
\<close>

theorem load_missing_file:
  assumes "open_read w (cachename self name extension) = Inl FileNotFoundError"
  shows "load w self name extension = Inr JNull"
  using assms by (simp add: load_def)

theorem load_missing_file_witness:
  "open_read (example_world JNull JNull)
     (cachename (CacheControl_init (example_world JNull JNull) ''cache/'') ''rules'' ''.json'')
     = Inl FileNotFoundError \<and>
   cachename (CacheControl_init (example_world JNull JNull) ''cache/'') ''rules'' ''.json''
     = ''cache/rules.json'' \<and>
   load (example_world JNull JNull) (CacheControl_init (example_world JNull JNull) ''cache/'')
     ''rules'' ''.json'' = Inr JNull"
  using load_missing_file [of "example_world JNull JNull"
      "CacheControl_init (example_world JNull JNull) ''cache/''" "''rules''" "''.json''"]
  by (simp add: example_world_def CacheControl_init_def cachename_def rstrip_def)

text \<open>
  C8. When formatting the entries of a URL-debug result raises, whatever the exception, the
  \<^verbatim>\<open>urldebug\<close> command ends without an exception, and after the lines it printed before
  the failure it prints the raw JSON of the result.
\<close>

theorem urldebug_falls_back_to_raw_json:
  assumes "urldebug w akadiag url = Inr result" "snd (urldebug_try w result) = Some e"
  shows "urldebug_command w akadiag url =
           (\<lparr>stdout = fst (urldebug_try w result) @ [json_dumps w result], stderr = []\<rparr>, None)"
  using assms by (simp add: urldebug_command_def urldebug_print_def)

theorem urldebug_falls_back_to_raw_json_witness:
  "urldebug (example_world JNull malformed_urldebug) example_akadiag ''https://www.example.com/''
     = Inr malformed_urldebug \<and>
   urldebug_try (example_world JNull malformed_urldebug) malformed_urldebug
     = ([''Response Code         : 200''], Some TypeError) \<and>
   urldebug_command (example_world JNull malformed_urldebug) example_akadiag
       ''https://www.example.com/''
     = (\<lparr>stdout = [''Response Code         : 200'', ''{}''], stderr = []\<rparr>, None)"
proof -
  let ?w = "example_world JNull malformed_urldebug"
  have u: "urldebug ?w example_akadiag ''https://www.example.com/'' = Inr malformed_urldebug"
    by (simp add: urldebug_def example_world_def)
  have t: "urldebug_try ?w malformed_urldebug = ([''Response Code         : 200''], Some TypeError)"
    by (simp add: urldebug_try_def malformed_urldebug_def urldebug_line_def ljust_def py_str_def
        eval_nat_numeral)
  then have s: "snd (urldebug_try ?w malformed_urldebug) = Some TypeError" by simp
  have d: "json_dumps ?w malformed_urldebug = ''{}''" by (simp add: example_world_def)
  show ?thesis using urldebug_falls_back_to_raw_json [OF u s] u t d by simp
qed

lemma first_active_none:
  assumes "\<forall>x \<in> set xs. \<exists>s. getitem x ''productionStatus'' = Inr s \<and> s \<noteq> JStr ''ACTIVE''"
  shows "first_active xs = Inr JNull"
  using assms by (induction xs) auto

text \<open>
  C7. When the search for a hostname answers with items none of which has the production
  status \<^verbatim>\<open>ACTIVE\<close>, \<^verbatim>\<open>propertybyhostname\<close>, \<^verbatim>\<open>propertyrules\<close> and \<^verbatim>\<open>origins\<close> all return
  \<^verbatim>\<open>None\<close>, and the \<^verbatim>\<open>origins\<close> command prints nothing but its message on standard error.
\<close>

theorem failed_lookup_is_none:
  assumes "session_post w (apipath w akadiag ''/papi/v1/search/find-by-value'' None)
             (JObj [(''hostname'', JStr hostname)]) = Inr response"
    and "getitem response ''versions'' = Inr versions"
    and "getitem versions ''items'' = Inr items"
    and "py_iter items = Inr xs"
    and "\<forall>x \<in> set xs. \<exists>s. getitem x ''productionStatus'' = Inr s \<and> s \<noteq> JStr ''ACTIVE''"
  shows "propertybyhostname w akadiag hostname = Inr JNull \<and>
         propertyrules w akadiag hostname = Inr JNull \<and>
         origins w akadiag hostname = Inr JNull \<and>
         origins_command w akadiag hostname =
           (\<lparr>stdout = [],
             stderr = [''Problem, hostname incorrect or issue with accessing the API'']\<rparr>, None)"
proof -
  have p: "propertybyhostname w akadiag hostname = Inr JNull"
    using assms(1-4) first_active_none [OF assms(5)] by (simp add: propertybyhostname_def)
  then have r: "propertyrules w akadiag hostname = Inr JNull"
    by (simp add: propertyrules_def)
  then have o: "origins w akadiag hostname = Inr JNull"
    by (simp add: origins_def)
  then show ?thesis using p r by (simp add: origins_command_def)
qed

theorem failed_lookup_is_none_witness:
  "session_post (example_world (example_search ''INACTIVE'') example_rules)
     (apipath (example_world (example_search ''INACTIVE'') example_rules) example_akadiag
        ''/papi/v1/search/find-by-value'' None)
     (JObj [(''hostname'', JStr ''www.example.com'')]) = Inr (example_search ''INACTIVE'') \<and>
   (\<exists>versions items xs. getitem (example_search ''INACTIVE'') ''versions'' = Inr versions \<and>
      getitem versions ''items'' = Inr items \<and> py_iter items = Inr xs \<and>
      (\<forall>x \<in> set xs. \<exists>s. getitem x ''productionStatus'' = Inr s \<and> s \<noteq> JStr ''ACTIVE'')) \<and>
   origins (example_world (example_search ''INACTIVE'') example_rules) example_akadiag
     ''www.example.com'' = Inr JNull \<and>
   origins_command (example_world (example_search ''INACTIVE'') example_rules) example_akadiag
     ''www.example.com'' =
       (\<lparr>stdout = [],
         stderr = [''Problem, hostname incorrect or issue with accessing the API'']\<rparr>, None)"
proof -
  let ?w = "example_world (example_search ''INACTIVE'') example_rules"
  let ?items = "JList
     [JObj [(''propertyId'', JStr ''prp_1''), (''propertyVersion'', JInt 3),
            (''contractId'', JStr ''ctr_1''), (''groupId'', JStr ''grp_1''),
            (''productionStatus'', JStr ''INACTIVE'')],
      JObj [(''propertyId'', JStr ''prp_1''), (''propertyVersion'', JInt 2),
            (''contractId'', JStr ''ctr_1''), (''groupId'', JStr ''grp_1''),
            (''productionStatus'', JStr ''INACTIVE'')]]"
  have 1: "session_post ?w (apipath ?w example_akadiag ''/papi/v1/search/find-by-value'' None)
     (JObj [(''hostname'', JStr ''www.example.com'')]) = Inr (example_search ''INACTIVE'')"
    by (simp add: example_world_def)
  have 2: "getitem (example_search ''INACTIVE'') ''versions'' = Inr (JObj [(''items'', ?items)])"
    by (simp add: example_search_def)
  have 3: "getitem (JObj [(''items'', ?items)]) ''items'' = Inr ?items" by simp
  have 4: "py_iter ?items = Inr [JObj [(''propertyId'', JStr ''prp_1''), (''propertyVersion'', JInt 3),
            (''contractId'', JStr ''ctr_1''), (''groupId'', JStr ''grp_1''),
            (''productionStatus'', JStr ''INACTIVE'')],
      JObj [(''propertyId'', JStr ''prp_1''), (''propertyVersion'', JInt 2),
            (''contractId'', JStr ''ctr_1''), (''groupId'', JStr ''grp_1''),
            (''productionStatus'', JStr ''INACTIVE'')]]" by simp
  have 5: "\<forall>x \<in> set [JObj [(''propertyId'', JStr ''prp_1''), (''propertyVersion'', JInt 3),
            (''contractId'', JStr ''ctr_1''), (''groupId'', JStr ''grp_1''),
            (''productionStatus'', JStr ''INACTIVE'')],
      JObj [(''propertyId'', JStr ''prp_1''), (''propertyVersion'', JInt 2),
            (''contractId'', JStr ''ctr_1''), (''groupId'', JStr ''grp_1''),
            (''productionStatus'', JStr ''INACTIVE'')]].
         \<exists>s. getitem x ''productionStatus'' = Inr s \<and> s \<noteq> JStr ''ACTIVE''" by simp
  show ?thesis using failed_lookup_is_none [OF 1 2 3 4 5] 1 2 3 4 5 by blast
qed

lemma origins_bucket:
  assumes "propertyrules w akadiag hostname = Inr rules" "truthy rules"
    and "getitem rules ''rules'' = Inr root" "RuleInfo_init rules = Inr ruleinfo"
    and "filter (named (KStr ''origin'')) (all_behaviors root) \<noteq> []"
  shows "origins w akadiag hostname
           = Inr (JList (filter (named (KStr ''origin'')) (all_behaviors root)))"
proof -
  have run: "runrules \<lparr>behaviors = Map.empty, criteria = Map.empty\<rparr> root = Inr ruleinfo"
    using assms(2-4) by (simp add: RuleInfo_init_Inr)
  have "behaviors ruleinfo (KStr ''origin'')
          = Some (filter (named (KStr ''origin'')) (all_behaviors root))"
    using runrules_behaviors [OF run, of "KStr ''origin''"] assms(5) by (simp add: extend_def)
  then show ?thesis using assms(1,2,4) by (simp add: origins_def bucket_def)
qed

text \<open>
  C6. When the rule tree of the property holds exactly two behaviors named \<^verbatim>\<open>origin\<close>, in
  document order one of type \<^verbatim>\<open>CUSTOMER\<close> with the hostname \<^verbatim>\<open>a.example.com\<close> and one of type
  \<^verbatim>\<open>NET_STORAGE\<close> with the download domain \<^verbatim>\<open>b.example.com.download\<close>, the \<^verbatim>\<open>origins\<close>
  command prints these two names, in this order, and nothing else.
\<close>

theorem origins_prints_both_hosts:
  assumes "propertyrules w akadiag hostname = Inr rules" "truthy rules"
    and "getitem rules ''rules'' = Inr root" "RuleInfo_init rules = Inr ruleinfo"
    and "filter (named (KStr ''origin'')) (all_behaviors root) = [b1, b2]"
    and "getitem b1 ''options'' = Inr o1"
    and "getitem o1 ''originType'' = Inr (JStr ''CUSTOMER'')"
    and "getitem o1 ''hostname'' = Inr (JStr ''a.example.com'')"
    and "getitem b2 ''options'' = Inr o2"
    and "getitem o2 ''originType'' = Inr (JStr ''NET_STORAGE'')"
    and "getitem o2 ''netStorage'' = Inr ns"
    and "getitem ns ''downloadDomainName'' = Inr (JStr ''b.example.com.download'')"
  shows "origins_command w akadiag hostname =
           (\<lparr>stdout = [''a.example.com'', ''b.example.com.download''], stderr = []\<rparr>, None)"
proof -
  have "origins w akadiag hostname = Inr (JList [b1, b2])"
    using origins_bucket [OF assms(1-4)] assms(5) by simp
  moreover have "origin_line w b1 = Inr [''a.example.com'']"
    using assms(6-8) by (simp add: origin_line_def py_str_def)
  moreover have "origin_line w b2 = Inr [''b.example.com.download'']"
    using assms(9-12) by (simp add: origin_line_def py_str_def)
  ultimately show ?thesis by (simp add: origins_command_def)
qed

theorem origins_prints_both_hosts_witness:
  "propertyrules (example_world (example_search ''ACTIVE'') example_rules) example_akadiag
     ''www.example.com'' = Inr example_rules \<and>
   filter (named (KStr ''origin'')) (all_behaviors example_root)
     = [origin_customer, origin_netstorage] \<and>
   origins_command (example_world (example_search ''ACTIVE'') example_rules) example_akadiag
     ''www.example.com'' =
       (\<lparr>stdout = [''a.example.com'', ''b.example.com.download''], stderr = []\<rparr>, None)"
proof -
  let ?w = "example_world (example_search ''ACTIVE'') example_rules"
  have p: "propertyrules ?w example_akadiag ''www.example.com'' = Inr example_rules"
    by (simp add: propertyrules_def propertybyhostname_def example_world_def example_search_def)
  have t: "truthy example_rules" and g: "getitem example_rules ''rules'' = Inr example_root"
    by (simp_all add: example_rules_def)
  obtain ruleinfo where r: "RuleInfo_init example_rules = Inr ruleinfo"
    by (simp add: example_defs flatten_defs)
  have f: "filter (named (KStr ''origin'')) (all_behaviors example_root)
             = [origin_customer, origin_netstorage]"
    by (simp add: example_defs document_defs)
  have 1: "getitem origin_customer ''options''
             = Inr (JObj [(''originType'', JStr ''CUSTOMER''), (''hostname'', JStr ''a.example.com'')])"
    by (simp add: origin_customer_def)
  have 2: "getitem (JObj [(''originType'', JStr ''CUSTOMER''), (''hostname'', JStr ''a.example.com'')])
             ''originType'' = Inr (JStr ''CUSTOMER'')" by simp
  have 3: "getitem (JObj [(''originType'', JStr ''CUSTOMER''), (''hostname'', JStr ''a.example.com'')])
             ''hostname'' = Inr (JStr ''a.example.com'')" by simp
  have 4: "getitem origin_netstorage ''options''
             = Inr (JObj [(''originType'', JStr ''NET_STORAGE''),
        (''netStorage'', JObj [(''downloadDomainName'', JStr ''b.example.com.download'')])])"
    by (simp add: origin_netstorage_def)
  have 5: "getitem (JObj [(''originType'', JStr ''NET_STORAGE''),
        (''netStorage'', JObj [(''downloadDomainName'', JStr ''b.example.com.download'')])])
        ''originType'' = Inr (JStr ''NET_STORAGE'')" by simp
  have 6: "getitem (JObj [(''originType'', JStr ''NET_STORAGE''),
        (''netStorage'', JObj [(''downloadDomainName'', JStr ''b.example.com.download'')])])
        ''netStorage'' = Inr (JObj [(''downloadDomainName'', JStr ''b.example.com.download'')])"
    by simp
  have 7: "getitem (JObj [(''downloadDomainName'', JStr ''b.example.com.download'')])
        ''downloadDomainName'' = Inr (JStr ''b.example.com.download'')" by simp
  show ?thesis using origins_prints_both_hosts [OF p t g r f 1 2 3 4 5 6 7] p f by simp
qed

end
